theory Spec2Isabelle
  imports Main "HOL-Library.Sublist"
begin

section \<open>Schema diffing and migration rendering of \<open>scripts/run.py\<close>\<close>

text \<open>
  The program parses two SQL schema dumps into dictionaries, diffs them and renders an
  up/down migration. Python dictionaries keep insertion order, and the rendered text
  depends on it, so a dictionary is an association list with pairwise distinct keys, in
  insertion order. Text is a list of characters. The character classes of the parser
  (\<open>\s\<close>, \<open>\w\<close>, \<open>str.upper\<close>, \<open>str.strip\<close>, \<open>str.split\<close>) are the ones Python
  uses on code points below 128; statements that depend on them are made for ASCII text.
\<close>

subsection \<open>Dictionaries in insertion order\<close>

type_synonym ('k, 'v) dict = "('k \<times> 'v) list"

text \<open>\<open>d[k] = v\<close>: an existing key keeps its position, a new key goes to the end.\<close>

fun dict_set :: "('k, 'v) dict \<Rightarrow> 'k \<Rightarrow> 'v \<Rightarrow> ('k, 'v) dict" where
  "dict_set [] k v = [(k, v)]"
| "dict_set ((k', v') # d) k v =
     (if k' = k then (k, v) # d else (k', v') # dict_set d k v)"

text \<open>\<open>k in d\<close>.\<close>

definition dict_contains :: "('k, 'v) dict \<Rightarrow> 'k \<Rightarrow> bool" where
  "dict_contains d k = (map_of d k \<noteq> None)"

text \<open>\<open>d.setdefault(k, {})[c] = v\<close>: the inner dictionary of \<open>k\<close>, created empty when
  \<open>k\<close> is new, receives the entry \<open>c\<close>.\<close>

definition setdefault_set ::
  "('k, ('c, 'v) dict) dict \<Rightarrow> 'k \<Rightarrow> 'c \<Rightarrow> 'v \<Rightarrow> ('k, ('c, 'v) dict) dict" where
  "setdefault_set d k c v =
     (case map_of d k of
        None \<Rightarrow> dict_set d k (dict_set [] c v)
      | Some inner \<Rightarrow> dict_set d k (dict_set inner c v))"

definition wf_dict :: "('k, 'v) dict \<Rightarrow> bool" where
  "wf_dict d = distinct (map fst d)"

type_synonym columns = "(string, string) dict"
type_synonym schema = "(string, columns) dict"

definition wf_schema :: "schema \<Rightarrow> bool" where
  "wf_schema s = (wf_dict s \<and> list_all (\<lambda>(table, cols). wf_dict cols) s)"

subsection \<open>Text primitives\<close>

definition is_space :: "char \<Rightarrow> bool" where
  "is_space c =
     (let n = (of_char c :: nat) in (9 \<le> n \<and> n \<le> 13) \<or> (28 \<le> n \<and> n \<le> 32))"

definition is_word :: "char \<Rightarrow> bool" where
  "is_word c =
     (let n = (of_char c :: nat)
      in (48 \<le> n \<and> n \<le> 57) \<or> (65 \<le> n \<and> n \<le> 90) \<or> n = 95 \<or> (97 \<le> n \<and> n \<le> 122))"

definition upper_char :: "char \<Rightarrow> char" where
  "upper_char c =
     (let n = (of_char c :: nat) in if 97 \<le> n \<and> n \<le> 122 then char_of (n - 32) else c)"

definition upper :: "string \<Rightarrow> string" where
  "upper s = map upper_char s"


text \<open>\<open>s.strip()\<close>\<close>

definition strip :: "string \<Rightarrow> string" where
  "strip s = rev (dropWhile is_space (rev (dropWhile is_space s)))"

text \<open>\<open>s.startswith(p)\<close>\<close>

definition startswith :: "string \<Rightarrow> string \<Rightarrow> bool" where
  "startswith s p = (take (length p) s = p)"

text \<open>\<open>s.split(sep)\<close> for a one-character separator: empty pieces are kept.\<close>

fun split_on :: "char \<Rightarrow> string \<Rightarrow> string list" where
  "split_on sep [] = [[]]"
| "split_on sep (c # s) =
     (if c = sep then [] # split_on sep s
      else (case split_on sep s of
              [] \<Rightarrow> [[c]]
            | w # ws \<Rightarrow> (c # w) # ws))"

text \<open>\<open>s.split()\<close>: the maximal runs of non-whitespace; \<open>cur\<close> is the run being read.\<close>

fun split_ws :: "string \<Rightarrow> string \<Rightarrow> string list" where
  "split_ws cur [] = (if cur = [] then [] else [cur])"
| "split_ws cur (c # s) =
     (if is_space c then (if cur = [] then split_ws [] s else cur # split_ws [] s)
      else split_ws (cur @ [c]) s)"

definition split :: "string \<Rightarrow> string list" where
  "split s = split_ws [] s"

text \<open>\<open>sep.join(xs)\<close>\<close>

fun join :: "string \<Rightarrow> string list \<Rightarrow> string" where
  "join sep [] = []"
| "join sep [x] = x"
| "join sep (x # y # ys) = x @ sep @ join sep (y # ys)"

subsection \<open>\<open>parse_schema\<close>\<close>

text \<open>
  The pattern is \<open>CREATE\s+TABLE\s+(\w+)\s*\((.*?)\);\<close> with \<open>DOTALL\<close> and
  \<open>IGNORECASE\<close>. \<open>match_create_table s\<close> is the match anchored at the start of \<open>s\<close>:
  the table name, the body and the text after the match. Each greedy run is followed by
  an item that no character of the run can start (\<open>T\<close> or a word character after
  \<open>\s+\<close>, \<open>\s*\(\<close> after \<open>\w+\<close>, \<open>(\<close> after \<open>\s*\<close>), so backtracking into a run never
  succeeds and every run is maximal; the lazy body \<open>.*?\<close> ends at the first \<open>);\<close>.
\<close>

text \<open>A literal of the pattern under \<open>IGNORECASE\<close>; the rest of the text on success.\<close>

definition match_literal :: "string \<Rightarrow> string \<Rightarrow> string option" where
  "match_literal lit s =
     (if length lit \<le> length s \<and> upper (take (length lit) s) = upper lit
      then Some (drop (length lit) s) else None)"

text \<open>\<open>(.*?)\);\<close>: the shortest body followed by \<open>);\<close>, and the text after it.\<close>

fun match_body :: "string \<Rightarrow> (string \<times> string) option" where
  "match_body [] = None"
| "match_body [c] = None"
| "match_body (c # d # s) =
     (if c = CHR '')'' \<and> d = CHR '';'' then Some ([], s)
      else (case match_body (d # s) of
              None \<Rightarrow> None
            | Some (body, rest) \<Rightarrow> Some (c # body, rest)))"

definition match_create_table :: "string \<Rightarrow> (string \<times> string \<times> string) option" where
  "match_create_table s =
     (case match_literal ''CREATE'' s of
        None \<Rightarrow> None
      | Some s1 \<Rightarrow>
          if takeWhile is_space s1 = [] then None
          else (case match_literal ''TABLE'' (dropWhile is_space s1) of
                  None \<Rightarrow> None
                | Some s2 \<Rightarrow>
                    if takeWhile is_space s2 = [] then None
                    else (let s3 = dropWhile is_space s2;
                              table_name = takeWhile is_word s3
                          in if table_name = [] then None
                             else (case dropWhile is_space (dropWhile is_word s3) of
                                     [] \<Rightarrow> None
                                   | c # s4 \<Rightarrow>
                                       if c = CHR ''(''
                                       then (case match_body s4 of
                                               None \<Rightarrow> None
                                             | Some (body, rest) \<Rightarrow>
                                                 Some (table_name, body, rest))
                                       else None))))"

lemma match_literal_shorter:
  "match_literal lit s = Some r \<Longrightarrow> length r \<le> length s"
  by (auto simp: match_literal_def split: if_splits)

lemma match_body_shorter:
  "match_body s = Some (body, rest) \<Longrightarrow> length rest < length s"
  by (induction s arbitrary: body rest rule: match_body.induct)
     (auto split: if_splits option.splits)

lemma match_create_table_shorter:
  assumes "match_create_table s = Some (table_name, body, rest)"
  shows "length rest < length s"
proof -
  from assms obtain s1 s2 s4 where
    s1: "match_literal ''CREATE'' s = Some s1" and
    s2: "match_literal ''TABLE'' (dropWhile is_space s1) = Some s2" and
    s4: "dropWhile is_space (dropWhile is_word (dropWhile is_space s2)) = CHR ''('' # s4" and
    b: "match_body s4 = Some (body, rest)"
    by (auto simp: match_create_table_def Let_def
        split: option.splits if_splits list.splits)
  have "length rest < length s4"
    using b by (rule match_body_shorter)
  also have "length s4 < length (dropWhile is_space (dropWhile is_word (dropWhile is_space s2)))"
    by (simp add: s4)
  also have "\<dots> \<le> length s2"
    by (meson length_dropWhile_le order_trans)
  also have "\<dots> \<le> length (dropWhile is_space s1)"
    using s2 by (rule match_literal_shorter)
  also have "\<dots> \<le> length s1"
    by (rule length_dropWhile_le)
  also have "\<dots> \<le> length s"
    using s1 by (rule match_literal_shorter)
  finally show ?thesis .
qed

text \<open>\<open>pattern.finditer(sql)\<close>: the matches from left to right, not overlapping; a
  position where the pattern does not match is passed over.\<close>

function find_blocks :: "string \<Rightarrow> (string \<times> string) list" where
  "find_blocks [] = []"
| "find_blocks (c # s) =
     (case match_create_table (c # s) of
        None \<Rightarrow> find_blocks s
      | Some (table_name, body, rest) \<Rightarrow> (table_name, body) # find_blocks rest)"
  by pat_completeness auto
termination
  by (relation "measure length") (auto dest: match_create_table_shorter)

definition constraint_keywords :: "string list" where
  "constraint_keywords =
     [''PRIMARY KEY'', ''FOREIGN KEY'', ''UNIQUE'', ''CHECK'', ''CONSTRAINT'']"

text \<open>The body of the loop over \<open>body.split(",")\<close>.\<close>

definition parse_line :: "string \<Rightarrow> columns \<Rightarrow> columns" where
  "parse_line raw columns =
     (let line = strip raw in
      if line = [] then columns
      else if list_ex (\<lambda>kw. startswith (upper line) kw) constraint_keywords then columns
      else (let parts = split line in
            if length parts \<ge> 2
            then dict_set columns (hd parts) (join '' '' (tl parts))
            else columns))"

definition parse_columns :: "string \<Rightarrow> columns" where
  "parse_columns body = fold parse_line (split_on CHR '','' body) []"

definition parse_schema :: "string \<Rightarrow> schema" where
  "parse_schema sql =
     fold (\<lambda>(table_name, body) tables. dict_set tables table_name (parse_columns body))
       (find_blocks sql) []"


subsection \<open>\<open>diff_schemas\<close>\<close>

record change_set =
  added_tables :: schema
  removed_tables :: schema
  added_columns :: schema
  removed_columns :: schema

text \<open>
  A loop \<open>for table in new\<close> that reads \<open>new[table]\<close> runs over the entries of \<open>new\<close>
  in insertion order. The test \<open>table in old\<close> and the read \<open>old[table]\<close> are one lookup.
\<close>

text \<open>First loop: \<open>if table not in old: changes["added_tables"][table] = new[table]\<close>.\<close>

definition add_table :: "schema \<Rightarrow> string \<times> columns \<Rightarrow> change_set \<Rightarrow> change_set" where
  "add_table old = (\<lambda>(table, cols) changes.
     if \<not> dict_contains old table
     then changes\<lparr>added_tables := dict_set (added_tables changes) table cols\<rparr>
     else changes)"

text \<open>Second loop: \<open>if table not in new: changes["removed_tables"][table] = old[table]\<close>.\<close>

definition remove_table :: "schema \<Rightarrow> string \<times> columns \<Rightarrow> change_set \<Rightarrow> change_set" where
  "remove_table new = (\<lambda>(table, cols) changes.
     if \<not> dict_contains new table
     then changes\<lparr>removed_tables := dict_set (removed_tables changes) table cols\<rparr>
     else changes)"

text \<open>The two inner loops of the third loop, over the columns of one table.\<close>

definition add_column ::
  "string \<Rightarrow> columns \<Rightarrow> string \<times> string \<Rightarrow> change_set \<Rightarrow> change_set" where
  "add_column table old_cols = (\<lambda>(col, defn) changes.
     if \<not> dict_contains old_cols col
     then changes\<lparr>added_columns := setdefault_set (added_columns changes) table col defn\<rparr>
     else changes)"

definition remove_column ::
  "string \<Rightarrow> columns \<Rightarrow> string \<times> string \<Rightarrow> change_set \<Rightarrow> change_set" where
  "remove_column table new_cols = (\<lambda>(col, defn) changes.
     if \<not> dict_contains new_cols col
     then changes\<lparr>removed_columns := setdefault_set (removed_columns changes) table col defn\<rparr>
     else changes)"

text \<open>Third loop: \<open>for table in new: if table in old: ...\<close>.\<close>

definition diff_table :: "schema \<Rightarrow> string \<times> columns \<Rightarrow> change_set \<Rightarrow> change_set" where
  "diff_table old = (\<lambda>(table, new_cols) changes.
     case map_of old table of
       None \<Rightarrow> changes
     | Some old_cols \<Rightarrow>
         fold (remove_column table new_cols) old_cols
           (fold (add_column table old_cols) new_cols changes))"

definition no_changes :: change_set where
  "no_changes =
     \<lparr>added_tables = [], removed_tables = [], added_columns = [], removed_columns = []\<rparr>"

definition diff_schemas :: "schema \<Rightarrow> schema \<Rightarrow> change_set" where
  "diff_schemas old new =
     fold (diff_table old) new
       (fold (remove_table new) old
          (fold (add_table old) new no_changes))"

subsection \<open>\<open>generate_migration\<close>\<close>

abbreviation nl :: string where
  "nl \<equiv> [CHR 0x0A]"

record render_state =
  up_lines :: "string list"
  down_lines :: "string list"
  has_changes :: bool

text \<open>\<open>",\n    ".join(f"{name} {defn}" for name, defn in columns.items())\<close>\<close>

definition cols_text :: "columns \<Rightarrow> string" where
  "cols_text columns =
     join ('','' @ nl @ ''    '') (map (\<lambda>(name, defn). name @ '' '' @ defn) columns)"

definition create_table_stmt :: "string \<Rightarrow> columns \<Rightarrow> string" where
  "create_table_stmt table columns =
     ''CREATE TABLE '' @ table @ '' ('' @ nl @ ''    '' @ cols_text columns @ nl @ '');''"

definition drop_table_stmt :: "string \<Rightarrow> string" where
  "drop_table_stmt table = ''DROP TABLE IF EXISTS '' @ table @ '';''"

definition add_column_stmt :: "string \<Rightarrow> string \<Rightarrow> string \<Rightarrow> string" where
  "add_column_stmt table col defn =
     ''ALTER TABLE '' @ table @ '' ADD COLUMN '' @ col @ '' '' @ defn @ '';''"

definition drop_column_stmt :: "string \<Rightarrow> string \<Rightarrow> string \<Rightarrow> string" where
  "drop_column_stmt dialect table col =
     (if dialect = ''sqlite''
      then ''-- SQLite: ALTER TABLE '' @ table @ '' DROP COLUMN '' @ col
             @ ''; (requires SQLite 3.35+)''
      else ''ALTER TABLE '' @ table @ '' DROP COLUMN '' @ col @ '';'')"

text \<open>The bodies of the four loops; \<open>append\<close> adds a line at the end of a list.\<close>

definition render_added_table :: "string \<times> columns \<Rightarrow> render_state \<Rightarrow> render_state" where
  "render_added_table = (\<lambda>(table, columns) st.
     st\<lparr>has_changes := True,
        up_lines := up_lines st @ [create_table_stmt table columns],
        down_lines := down_lines st @ [drop_table_stmt table]\<rparr>)"

definition render_removed_table :: "string \<times> columns \<Rightarrow> render_state \<Rightarrow> render_state" where
  "render_removed_table = (\<lambda>(table, columns) st.
     st\<lparr>has_changes := True,
        up_lines := up_lines st @ [drop_table_stmt table],
        down_lines := down_lines st @ [create_table_stmt table columns]\<rparr>)"

definition render_added_column ::
  "string \<Rightarrow> string \<Rightarrow> string \<times> string \<Rightarrow> render_state \<Rightarrow> render_state" where
  "render_added_column dialect table = (\<lambda>(col, defn) st.
     st\<lparr>up_lines := up_lines st @ [add_column_stmt table col defn],
        down_lines := down_lines st @ [drop_column_stmt dialect table col]\<rparr>)"

definition render_removed_column ::
  "string \<Rightarrow> string \<Rightarrow> string \<times> string \<Rightarrow> render_state \<Rightarrow> render_state" where
  "render_removed_column dialect table = (\<lambda>(col, defn) st.
     st\<lparr>up_lines := up_lines st @ [drop_column_stmt dialect table col],
        down_lines := down_lines st @ [add_column_stmt table col defn]\<rparr>)"

definition render_added_columns ::
  "string \<Rightarrow> string \<times> columns \<Rightarrow> render_state \<Rightarrow> render_state" where
  "render_added_columns dialect = (\<lambda>(table, columns) st.
     fold (render_added_column dialect table) columns (st\<lparr>has_changes := True\<rparr>))"

definition render_removed_columns ::
  "string \<Rightarrow> string \<times> columns \<Rightarrow> render_state \<Rightarrow> render_state" where
  "render_removed_columns dialect = (\<lambda>(table, columns) st.
     fold (render_removed_column dialect table) columns (st\<lparr>has_changes := True\<rparr>))"

definition render_lines :: "change_set \<Rightarrow> string \<Rightarrow> render_state" where
  "render_lines changes dialect =
     fold (render_removed_columns dialect) (removed_columns changes)
       (fold (render_added_columns dialect) (added_columns changes)
          (fold render_removed_table (removed_tables changes)
             (fold render_added_table (added_tables changes)
                \<lparr>up_lines = [''-- Up''], down_lines = [''-- Down''],
                 has_changes = False\<rparr>)))"

definition generate_migration :: "change_set \<Rightarrow> string \<Rightarrow> string" where
  "generate_migration changes dialect =
     (let st = render_lines changes dialect in
      if \<not> has_changes st then ''-- No changes detected'' @ nl
      else join nl (up_lines st) @ nl @ nl @ join nl (down_lines st) @ nl)"

subsection \<open>The loops of \<open>diff_schemas\<close> in closed form\<close>

text \<open>
  The loops of \<open>diff_schemas\<close> store entries one at a time. On dictionaries (distinct
  keys) their results are the lists below: \<open>added_columns_in_order\<close> and
  \<open>removed_columns_in_order\<close> both run over the tables of \<open>new\<close> in insertion order
  and keep a table only when it has a column to report; the columns of a table come in
  the order of the new table (added) or of the old table (removed).
\<close>

text \<open>A loop that stores the selected entries of a dictionary into another one.\<close>

definition store_if :: "('k \<Rightarrow> bool) \<Rightarrow> 'k \<times> 'v \<Rightarrow> ('k, 'v) dict \<Rightarrow> ('k, 'v) dict" where
  "store_if P = (\<lambda>(k, v) acc. if P k then dict_set acc k v else acc)"

text \<open>The loop over the columns of one table, on the dictionary it fills.\<close>

definition store_col_if ::
  "('c \<Rightarrow> bool) \<Rightarrow> 'k \<Rightarrow> 'c \<times> 'v \<Rightarrow> ('k, ('c, 'v) dict) dict \<Rightarrow> ('k, ('c, 'v) dict) dict" where
  "store_col_if P t = (\<lambda>(c, v) acc. if P c then setdefault_set acc t c v else acc)"

definition columns_not_in :: "columns \<Rightarrow> columns \<Rightarrow> columns" where
  "columns_not_in cols other = filter (\<lambda>(col, defn). \<not> dict_contains other col) cols"

definition table_entry :: "string \<Rightarrow> columns \<Rightarrow> schema" where
  "table_entry table cols = (if cols = [] then [] else [(table, cols)])"

definition added_columns_in_order :: "schema \<Rightarrow> schema \<Rightarrow> schema" where
  "added_columns_in_order old new =
     concat (map (\<lambda>(table, new_cols).
                    case map_of old table of
                      None \<Rightarrow> []
                    | Some old_cols \<Rightarrow> table_entry table (columns_not_in new_cols old_cols))
             new)"

definition removed_columns_in_order :: "schema \<Rightarrow> schema \<Rightarrow> schema" where
  "removed_columns_in_order old new =
     concat (map (\<lambda>(table, new_cols).
                    case map_of old table of
                      None \<Rightarrow> []
                    | Some old_cols \<Rightarrow> table_entry table (columns_not_in old_cols new_cols))
             new)"

subsection \<open>Two example schemas\<close>

definition old_example :: schema where
  "old_example =
     [(''a'', [(''x'', ''INT''), (''k'', ''INT'')]),
      (''b'', [(''y'', ''INT''), (''k'', ''INT'')]),
      (''gone'', [(''p'', ''TEXT''), (''q'', ''TEXT'')])]"

definition new_example :: schema where
  "new_example =
     [(''b'', [(''k'', ''INT''), (''m'', ''TEXT'')]),
      (''a'', [(''k'', ''INT''), (''n'', ''TEXT'')]),
      (''fresh'', [(''p'', ''TEXT''), (''q'', ''TEXT'')])]"


subsection \<open>Fragments as tokens and gaps\<close>





section \<open>Properties\<close>

subsection \<open>Dictionaries\<close>

lemma dict_contains_iff: "dict_contains d k \<longleftrightarrow> k \<in> fst ` set d"
  by (simp add: dict_contains_def map_of_eq_None_iff)

lemma dict_set_fresh: "k \<notin> fst ` set d \<Longrightarrow> dict_set d k v = d @ [(k, v)]"
  by (induction d) auto

lemma map_fst_dict_set:
  "map fst (dict_set d k v) = (if k \<in> fst ` set d then map fst d else map fst d @ [k])"
  by (induction d) (auto simp: rev_image_eqI)

lemma keys_dict_set: "fst ` set (dict_set d k v) = insert k (fst ` set d)"
proof -
  have "set (map fst (dict_set d k v)) = insert k (set (map fst d))"
    unfolding map_fst_dict_set by auto
  then show ?thesis by simp
qed


lemma dict_set_last:
  "k \<notin> fst ` set d \<Longrightarrow> dict_set (d @ [(k, v)]) k w = d @ [(k, w)]"
  by (induction d) auto

lemma wf_dict_set: "wf_dict d \<Longrightarrow> wf_dict (dict_set d k v)"
  by (simp add: wf_dict_def map_fst_dict_set)

lemma store_if_pair:
  "store_if P (k, v) acc = (if P k then dict_set acc k v else acc)"
  by (simp add: store_if_def)

lemma keys_fold_store_if:
  "fst ` set (fold (store_if P) xs acc) = fst ` set acc \<union> {k \<in> fst ` set xs. P k}"
proof (induction xs arbitrary: acc)
  case Nil
  show ?case by simp
next
  case (Cons x xs)
  obtain k v where x: "x = (k, v)" by (cases x)
  show ?case
    by (auto simp: Cons.IH x store_if_pair keys_dict_set)
qed

lemma fold_store_if_distinct:
  "distinct (map fst xs) \<Longrightarrow> fst ` set xs \<inter> fst ` set acc = {} \<Longrightarrow>
   fold (store_if P) xs acc = acc @ filter (\<lambda>(k, v). P k) xs"
proof (induction xs arbitrary: acc)
  case Nil
  show ?case by simp
next
  case (Cons x xs)
  obtain k v where x: "x = (k, v)" by (cases x)
  have fresh: "k \<notin> fst ` set acc"
    using Cons.prems(2) x by auto
  show ?case
  proof (cases "P k")
    case True
    have "fst ` set xs \<inter> fst ` set (acc @ [(k, v)]) = {}"
      using Cons.prems x by auto
    with Cons.IH [of "acc @ [(k, v)]"] Cons.prems(1) True fresh show ?thesis
      by (simp add: x store_if_pair dict_set_fresh)
  next
    case False
    have "fst ` set xs \<inter> fst ` set acc = {}"
      using Cons.prems x by auto
    with Cons.IH [of acc] Cons.prems(1) False show ?thesis
      by (simp add: x store_if_pair)
  qed
qed

lemma fold_add_table:
  "fold (add_table old) xs ch =
     ch\<lparr>added_tables := fold (store_if (\<lambda>t. \<not> dict_contains old t)) xs (added_tables ch)\<rparr>"
  by (induction xs arbitrary: ch) (auto simp: add_table_def store_if_def)

lemma fold_remove_table:
  "fold (remove_table new) xs ch =
     ch\<lparr>removed_tables := fold (store_if (\<lambda>t. \<not> dict_contains new t)) xs (removed_tables ch)\<rparr>"
  by (induction xs arbitrary: ch) (auto simp: remove_table_def store_if_def)

lemma store_col_if_pair:
  "store_col_if P t (c, v) acc = (if P c then setdefault_set acc t c v else acc)"
  by (simp add: store_col_if_def)

lemma setdefault_set_new:
  assumes "t \<notin> fst ` set A"
  shows "setdefault_set A t c v = A @ [(t, [(c, v)])]"
proof -
  have "map_of A t = None"
    using assms by (simp add: map_of_eq_None_iff)
  then show ?thesis
    using assms by (simp add: setdefault_set_def dict_set_fresh)
qed

lemma setdefault_set_last:
  assumes "t \<notin> fst ` set A" and "c \<notin> fst ` set inner"
  shows "setdefault_set (A @ [(t, inner)]) t c v = A @ [(t, inner @ [(c, v)])]"
proof -
  have "map_of A t = None"
    using assms(1) by (simp add: map_of_eq_None_iff)
  then have "map_of (A @ [(t, inner)]) t = Some inner"
    by (simp add: map_add_def)
  then show ?thesis
    using assms by (simp add: setdefault_set_def dict_set_last dict_set_fresh)
qed

lemma fold_store_col_if_started:
  "t \<notin> fst ` set A \<Longrightarrow> distinct (map fst cols) \<Longrightarrow>
   fst ` set cols \<inter> fst ` set inner = {} \<Longrightarrow>
   fold (store_col_if P t) cols (A @ [(t, inner)])
     = A @ [(t, inner @ filter (\<lambda>(c, v). P c) cols)]"
proof (induction cols arbitrary: inner)
  case Nil
  show ?case by simp
next
  case (Cons x cols)
  obtain c v where x: "x = (c, v)" by (cases x)
  have fresh: "c \<notin> fst ` set inner"
    using Cons.prems(3) x by auto
  show ?case
  proof (cases "P c")
    case True
    have "fst ` set cols \<inter> fst ` set (inner @ [(c, v)]) = {}"
      using Cons.prems x by auto
    with Cons.IH [of "inner @ [(c, v)]"] Cons.prems(1,2) True fresh show ?thesis
      by (simp add: x store_col_if_pair setdefault_set_last)
  next
    case False
    have "fst ` set cols \<inter> fst ` set inner = {}"
      using Cons.prems x by auto
    with Cons.IH [of inner] Cons.prems(1,2) False show ?thesis
      by (simp add: x store_col_if_pair)
  qed
qed

lemma fold_store_col_if:
  "t \<notin> fst ` set A \<Longrightarrow> distinct (map fst cols) \<Longrightarrow>
   fold (store_col_if P t) cols A
     = (if filter (\<lambda>(c, v). P c) cols = [] then A
        else A @ [(t, filter (\<lambda>(c, v). P c) cols)])"
proof (induction cols)
  case Nil
  show ?case by simp
next
  case (Cons x cols)
  obtain c v where x: "x = (c, v)" by (cases x)
  show ?case
  proof (cases "P c")
    case True
    have "fold (store_col_if P t) cols (A @ [(t, [(c, v)])])
            = A @ [(t, [(c, v)] @ filter (\<lambda>(c, v). P c) cols)]"
      using Cons.prems x by (intro fold_store_col_if_started) auto
    with True Cons.prems(1) show ?thesis
      by (simp add: x store_col_if_pair setdefault_set_new)
  next
    case False
    with Cons show ?thesis
      by (simp add: x store_col_if_pair)
  qed
qed

lemma fold_add_column:
  "fold (add_column t oc) cols ch =
     ch\<lparr>added_columns :=
          fold (store_col_if (\<lambda>c. \<not> dict_contains oc c) t) cols (added_columns ch)\<rparr>"
  by (induction cols arbitrary: ch) (auto simp: add_column_def store_col_if_pair)

lemma fold_remove_column:
  "fold (remove_column t nc) cols ch =
     ch\<lparr>removed_columns :=
          fold (store_col_if (\<lambda>c. \<not> dict_contains nc c) t) cols (removed_columns ch)\<rparr>"
  by (induction cols arbitrary: ch) (auto simp: remove_column_def store_col_if_pair)

lemma wf_schema_lookup:
  "wf_schema s \<Longrightarrow> map_of s t = Some cols \<Longrightarrow> distinct (map fst cols)"
  by (auto simp: wf_schema_def wf_dict_def list_all_iff dest!: map_of_SomeD)

lemma wf_schema_Cons:
  "wf_schema ((t, cols) # s) \<longleftrightarrow> t \<notin> fst ` set s \<and> distinct (map fst cols) \<and> wf_schema s"
  by (auto simp: wf_schema_def wf_dict_def)

lemma keys_table_entry: "fst ` set (table_entry t cols) \<subseteq> {t}"
  by (simp add: table_entry_def)

lemma diff_table_closed:
  assumes "map_of old t = Some old_cols"
    and "distinct (map fst old_cols)" and "distinct (map fst new_cols)"
    and "t \<notin> fst ` set (added_columns ch)" and "t \<notin> fst ` set (removed_columns ch)"
  shows "diff_table old (t, new_cols) ch =
     ch\<lparr>added_columns := added_columns ch @ table_entry t (columns_not_in new_cols old_cols),
        removed_columns := removed_columns ch @ table_entry t (columns_not_in old_cols new_cols)\<rparr>"
  using assms
  by (simp add: diff_table_def fold_add_column fold_remove_column fold_store_col_if
      table_entry_def columns_not_in_def)

lemma fold_diff_table:
  "wf_schema old \<Longrightarrow> wf_schema new \<Longrightarrow>
   fst ` set new \<inter> fst ` set (added_columns ch) = {} \<Longrightarrow>
   fst ` set new \<inter> fst ` set (removed_columns ch) = {} \<Longrightarrow>
   fold (diff_table old) new ch =
     ch\<lparr>added_columns := added_columns ch @ added_columns_in_order old new,
        removed_columns := removed_columns ch @ removed_columns_in_order old new\<rparr>"
proof (induction new arbitrary: ch)
  case Nil
  show ?case
    by (simp add: added_columns_in_order_def removed_columns_in_order_def)
next
  case (Cons x new)
  obtain t new_cols where x: "x = (t, new_cols)" by (cases x)
  from Cons.prems(2) have t: "t \<notin> fst ` set new" and nc: "distinct (map fst new_cols)"
    and wf: "wf_schema new"
    by (simp_all add: x wf_schema_Cons)
  from Cons.prems(3,4) have ta: "t \<notin> fst ` set (added_columns ch)"
    and tr: "t \<notin> fst ` set (removed_columns ch)"
    and da: "fst ` set new \<inter> fst ` set (added_columns ch) = {}"
    and dr: "fst ` set new \<inter> fst ` set (removed_columns ch) = {}"
    by (auto simp: x)
  show ?case
  proof (cases "map_of old t")
    case None
    then have step: "diff_table old (t, new_cols) ch = ch"
      by (simp add: diff_table_def)
    show ?thesis
      using Cons.IH [OF Cons.prems(1) wf da dr] None
      by (simp add: step x added_columns_in_order_def removed_columns_in_order_def)
  next
    case (Some old_cols)
    let ?a = "table_entry t (columns_not_in new_cols old_cols)"
    let ?r = "table_entry t (columns_not_in old_cols new_cols)"
    let ?ch = "ch\<lparr>added_columns := added_columns ch @ ?a,
                   removed_columns := removed_columns ch @ ?r\<rparr>"
    have oc: "distinct (map fst old_cols)"
      using Cons.prems(1) Some by (rule wf_schema_lookup)
    have step: "diff_table old (t, new_cols) ch = ?ch"
      using Some oc nc ta tr by (rule diff_table_closed)
    have da': "fst ` set new \<inter> fst ` set (added_columns ?ch) = {}"
      using da t keys_table_entry [of t "columns_not_in new_cols old_cols"] by auto
    have dr': "fst ` set new \<inter> fst ` set (removed_columns ?ch) = {}"
      using dr t keys_table_entry [of t "columns_not_in old_cols new_cols"] by auto
    show ?thesis
      using Cons.IH [OF Cons.prems(1) wf da' dr'] Some
      by (simp add: step x added_columns_in_order_def removed_columns_in_order_def)
  qed
qed

lemma diff_schemas_closed:
  assumes "wf_schema old" and "wf_schema new"
  shows "diff_schemas old new =
     \<lparr>added_tables = filter (\<lambda>(t, cols). \<not> dict_contains old t) new,
      removed_tables = filter (\<lambda>(t, cols). \<not> dict_contains new t) old,
      added_columns = added_columns_in_order old new,
      removed_columns = removed_columns_in_order old new\<rparr>"
proof -
  have "distinct (map fst old)" and "distinct (map fst new)"
    using assms by (simp_all add: wf_schema_def wf_dict_def)
  then show ?thesis
    using assms
    by (simp add: diff_schemas_def fold_add_table fold_remove_table no_changes_def
        fold_store_if_distinct fold_diff_table)
qed

subsection \<open>Table-level changes\<close>

lemma diff_table_tables:
  "added_tables (diff_table old x ch) = added_tables ch"
  "removed_tables (diff_table old x ch) = removed_tables ch"
  by (cases x; simp add: diff_table_def fold_add_column fold_remove_column
      split: option.splits)+

lemma fold_diff_table_tables:
  "added_tables (fold (diff_table old) xs ch) = added_tables ch"
  "removed_tables (fold (diff_table old) xs ch) = removed_tables ch"
  by (induction xs arbitrary: ch) (simp_all add: diff_table_tables)

lemma wf_old_example: "wf_schema old_example"
  by (simp add: old_example_def wf_schema_def wf_dict_def)

lemma wf_new_example: "wf_schema new_example"
  by (simp add: new_example_def wf_schema_def wf_dict_def)

lemma diff_example:
  "diff_schemas old_example new_example =
     \<lparr>added_tables = [(''fresh'', [(''p'', ''TEXT''), (''q'', ''TEXT'')])],
      removed_tables = [(''gone'', [(''p'', ''TEXT''), (''q'', ''TEXT'')])],
      added_columns = [(''b'', [(''m'', ''TEXT'')]), (''a'', [(''n'', ''TEXT'')])],
      removed_columns = [(''b'', [(''y'', ''INT'')]), (''a'', [(''x'', ''INT'')])]\<rparr>"
  by (simp add: diff_schemas_def old_example_def new_example_def no_changes_def
      add_table_def remove_table_def diff_table_def add_column_def remove_column_def
      dict_contains_def setdefault_set_def)

lemma keys_removed_tables:
  "fst ` set (removed_tables (diff_schemas old new)) =
     {t \<in> fst ` set old. \<not> dict_contains new t}"
  by (simp add: diff_schemas_def fold_add_table fold_remove_table keys_fold_store_if
      no_changes_def fold_diff_table_tables)

lemma keys_added_tables:
  "fst ` set (added_tables (diff_schemas old new)) =
     {t \<in> fst ` set new. \<not> dict_contains old t}"
  by (simp add: diff_schemas_def fold_add_table fold_remove_table keys_fold_store_if
      no_changes_def fold_diff_table_tables)

text \<open>
  C5. A table that is in both schemas is in neither \<open>added_tables\<close> nor
  \<open>removed_tables\<close>, and no table is in both of them.
\<close>

theorem tables_in_both_not_reported:
  "(dict_contains old t \<and> dict_contains new t \<longrightarrow>
      \<not> dict_contains (added_tables (diff_schemas old new)) t \<and>
      \<not> dict_contains (removed_tables (diff_schemas old new)) t)
   \<and> \<not> (dict_contains (added_tables (diff_schemas old new)) t \<and>
          dict_contains (removed_tables (diff_schemas old new)) t)"
proof -
  have a: "dict_contains (added_tables (diff_schemas old new)) t
             \<longleftrightarrow> dict_contains new t \<and> \<not> dict_contains old t"
    using keys_added_tables [of old new] by (auto simp: dict_contains_iff)
  have r: "dict_contains (removed_tables (diff_schemas old new)) t
             \<longleftrightarrow> dict_contains old t \<and> \<not> dict_contains new t"
    using keys_removed_tables [of old new] by (auto simp: dict_contains_iff)
  show ?thesis
    unfolding a r by blast
qed

theorem tables_in_both_not_reported_witness:
  "dict_contains old_example ''a'' \<and> dict_contains new_example ''a'' \<and>
   \<not> dict_contains (added_tables (diff_schemas old_example new_example)) ''a'' \<and>
   \<not> dict_contains (removed_tables (diff_schemas old_example new_example)) ''a'' \<and>
   dict_contains (added_tables (diff_schemas old_example new_example)) ''fresh'' \<and>
   \<not> dict_contains (removed_tables (diff_schemas old_example new_example)) ''fresh''"
proof -
  have both: "dict_contains old_example ''a'' \<and> dict_contains new_example ''a''"
    by (simp add: dict_contains_def old_example_def new_example_def)
  have fresh: "dict_contains (added_tables (diff_schemas old_example new_example)) ''fresh''"
    by (simp add: diff_example dict_contains_def)
  show ?thesis
    using both fresh
      tables_in_both_not_reported [of old_example "''a''" new_example]
      tables_in_both_not_reported [of old_example "''fresh''" new_example]
    by blast
qed

subsection \<open>Swapping the schemas\<close>

lemma map_of_table_entry:
  "map_of (table_entry t cols) t' = (if t' = t \<and> cols \<noteq> [] then Some cols else None)"
  by (simp add: table_entry_def)

lemma map_of_concat_entries:
  assumes "distinct (map fst xs)" and "\<And>k v. fst ` set (g k v) \<subseteq> {k}"
  shows "map_of (concat (map (\<lambda>(k, v). g k v) xs)) t =
           (case map_of xs t of None \<Rightarrow> None | Some v \<Rightarrow> map_of (g t v) t)"
  using assms(1)
proof (induction xs)
  case Nil
  show ?case by simp
next
  case (Cons x xs)
  obtain k v where x: "x = (k, v)" by (cases x)
  have other: "map_of (g k v) t = None" if "t \<noteq> k"
    using assms(2) [of k v] that by (auto simp: map_of_eq_None_iff)
  have later: "map_of xs k = None"
    using Cons.prems by (simp add: x map_of_eq_None_iff)
  show ?case
  proof (cases "t = k")
    case True
    with Cons later show ?thesis
      by (auto simp: x map_add_def split: option.splits)
  next
    case False
    with Cons other show ?thesis
      by (simp add: x map_add_def)
  qed
qed

lemma map_of_added_columns_in_order:
  assumes "wf_schema new"
  shows "map_of (added_columns_in_order old new) t =
     (case map_of new t of
        None \<Rightarrow> None
      | Some new_cols \<Rightarrow>
          (case map_of old t of
             None \<Rightarrow> None
           | Some old_cols \<Rightarrow>
               if columns_not_in new_cols old_cols = [] then None
               else Some (columns_not_in new_cols old_cols)))"
proof -
  let ?g = "\<lambda>t new_cols. case map_of old t of None \<Rightarrow> []
               | Some old_cols \<Rightarrow> table_entry t (columns_not_in new_cols old_cols)"
  have keys: "fst ` set (?g k v) \<subseteq> {k}" for k v
    using keys_table_entry by (auto split: option.splits)
  have "distinct (map fst new)"
    using assms by (simp add: wf_schema_def wf_dict_def)
  then have "map_of (concat (map (\<lambda>(k, v). ?g k v) new)) t =
           (case map_of new t of None \<Rightarrow> None | Some v \<Rightarrow> map_of (?g t v) t)"
    using keys by (rule map_of_concat_entries)
  then show ?thesis
    by (simp add: added_columns_in_order_def map_of_table_entry split: option.splits)
qed

lemma map_of_removed_columns_in_order:
  assumes "wf_schema new"
  shows "map_of (removed_columns_in_order old new) t =
     (case map_of new t of
        None \<Rightarrow> None
      | Some new_cols \<Rightarrow>
          (case map_of old t of
             None \<Rightarrow> None
           | Some old_cols \<Rightarrow>
               if columns_not_in old_cols new_cols = [] then None
               else Some (columns_not_in old_cols new_cols)))"
proof -
  let ?g = "\<lambda>t new_cols. case map_of old t of None \<Rightarrow> []
               | Some old_cols \<Rightarrow> table_entry t (columns_not_in old_cols new_cols)"
  have keys: "fst ` set (?g k v) \<subseteq> {k}" for k v
    using keys_table_entry by (auto split: option.splits)
  have "distinct (map fst new)"
    using assms by (simp add: wf_schema_def wf_dict_def)
  then have "map_of (concat (map (\<lambda>(k, v). ?g k v) new)) t =
           (case map_of new t of None \<Rightarrow> None | Some v \<Rightarrow> map_of (?g t v) t)"
    using keys by (rule map_of_concat_entries)
  then show ?thesis
    by (simp add: removed_columns_in_order_def map_of_table_entry split: option.splits)
qed

text \<open>
  C1. Swapping the two schemas swaps \<open>added_tables\<close> with \<open>removed_tables\<close> and
  \<open>added_columns\<close> with \<open>removed_columns\<close>, as mappings (a table is looked up to the
  same column list on both sides).
\<close>

theorem diff_schemas_swap:
  assumes "wf_schema old" and "wf_schema new"
  shows "map_of (added_tables (diff_schemas new old))
           = map_of (removed_tables (diff_schemas old new))
       \<and> map_of (removed_tables (diff_schemas new old))
           = map_of (added_tables (diff_schemas old new))
       \<and> map_of (added_columns (diff_schemas new old))
           = map_of (removed_columns (diff_schemas old new))
       \<and> map_of (removed_columns (diff_schemas new old))
           = map_of (added_columns (diff_schemas old new))"
proof -
  have ac: "map_of (added_columns_in_order new old) t
              = map_of (removed_columns_in_order old new) t" for t
    using assms
    by (simp add: map_of_added_columns_in_order map_of_removed_columns_in_order
        split: option.splits)
  have rc: "map_of (removed_columns_in_order new old) t
              = map_of (added_columns_in_order old new) t" for t
    using assms
    by (simp add: map_of_added_columns_in_order map_of_removed_columns_in_order
        split: option.splits)
  show ?thesis
    using ac rc by (simp add: diff_schemas_closed assms fun_eq_iff)
qed

theorem diff_schemas_swap_witness:
  "wf_schema old_example \<and> wf_schema new_example
   \<and> map_of (added_tables (diff_schemas new_example old_example))
       = map_of (removed_tables (diff_schemas old_example new_example))
   \<and> map_of (removed_tables (diff_schemas new_example old_example))
       = map_of (added_tables (diff_schemas old_example new_example))
   \<and> map_of (added_columns (diff_schemas new_example old_example))
       = map_of (removed_columns (diff_schemas old_example new_example))
   \<and> map_of (removed_columns (diff_schemas new_example old_example))
       = map_of (added_columns (diff_schemas old_example new_example))
   \<and> removed_columns (diff_schemas old_example new_example)
       = [(''b'', [(''y'', ''INT'')]), (''a'', [(''x'', ''INT'')])]"
  using diff_schemas_swap [OF wf_old_example wf_new_example] wf_old_example wf_new_example
  by (simp add: diff_example)

subsection \<open>Order of the column changes\<close>

lemma subseq_concat_entries:
  assumes "\<And>k v. map fst (g k v) = [] \<or> map fst (g k v) = [k]"
  shows "subseq (map fst (concat (map (\<lambda>(k, v). g k v) xs))) (map fst xs)"
proof (induction xs)
  case Nil
  show ?case by simp
next
  case (Cons x xs)
  obtain k v where x: "x = (k, v)" by (cases x)
  from assms [of k v] Cons show ?case
    by (auto simp: x)
qed

text \<open>
  C3, as stated: the tables of \<open>removed_columns\<close> come in the order of the old schema.
  They do not: the old schema lists \<open>a\<close> before \<open>b\<close>, the new one \<open>b\<close> before \<open>a\<close>,
  and \<open>removed_columns\<close> lists \<open>b\<close> before \<open>a\<close>.
\<close>

theorem removed_columns_old_order_counterexample:
  "wf_schema old_example \<and> wf_schema new_example \<and>
   \<not> subseq (map fst (removed_columns (diff_schemas old_example new_example)))
       (map fst old_example)"
proof -
  have "map fst (removed_columns (diff_schemas old_example new_example)) = [''b'', ''a'']"
    by (simp add: diff_example)
  moreover have "map fst old_example = [''a'', ''b'', ''gone'']"
    by (simp add: old_example_def)
  ultimately have "\<not> subseq (map fst (removed_columns (diff_schemas old_example new_example)))
       (map fst old_example)"
    by simp
  then show ?thesis
    using wf_old_example wf_new_example by simp
qed

text \<open>
  C3, amended: \<open>added_columns\<close> and \<open>removed_columns\<close> both list their tables in the
  insertion order of the new schema (the tables that are in both schemas and have a
  column to report); within a table the added columns are in the column order of the
  new table and the removed columns in the column order of the old table.
\<close>

theorem diff_columns_order:
  assumes "wf_schema old" and "wf_schema new"
  shows "added_columns (diff_schemas old new) = added_columns_in_order old new
       \<and> removed_columns (diff_schemas old new) = removed_columns_in_order old new
       \<and> subseq (map fst (added_columns (diff_schemas old new))) (map fst new)
       \<and> subseq (map fst (removed_columns (diff_schemas old new))) (map fst new)"
proof -
  have a: "subseq (map fst (added_columns_in_order old new)) (map fst new)"
    unfolding added_columns_in_order_def
    by (rule subseq_concat_entries) (simp add: table_entry_def split: option.splits)
  have r: "subseq (map fst (removed_columns_in_order old new)) (map fst new)"
    unfolding removed_columns_in_order_def
    by (rule subseq_concat_entries) (simp add: table_entry_def split: option.splits)
  show ?thesis
    using a r by (simp add: diff_schemas_closed assms)
qed

theorem diff_columns_order_witness:
  "wf_schema old_example \<and> wf_schema new_example
   \<and> added_columns (diff_schemas old_example new_example)
       = [(''b'', [(''m'', ''TEXT'')]), (''a'', [(''n'', ''TEXT'')])]
   \<and> removed_columns (diff_schemas old_example new_example)
       = [(''b'', [(''y'', ''INT'')]), (''a'', [(''x'', ''INT'')])]
   \<and> added_columns_in_order old_example new_example
       = [(''b'', [(''m'', ''TEXT'')]), (''a'', [(''n'', ''TEXT'')])]
   \<and> removed_columns_in_order old_example new_example
       = [(''b'', [(''y'', ''INT'')]), (''a'', [(''x'', ''INT'')])]
   \<and> subseq [''b'', ''a''] (map fst new_example)"
  using diff_columns_order [OF wf_old_example wf_new_example] wf_old_example wf_new_example
  by (simp add: diff_example)

subsection \<open>The lines of the migration\<close>

lemma fold_render_added_table:
  "up_lines (fold render_added_table xs st)
     = up_lines st @ map (\<lambda>(t, cols). create_table_stmt t cols) xs"
  "down_lines (fold render_added_table xs st)
     = down_lines st @ map (\<lambda>(t, cols). drop_table_stmt t) xs"
  "has_changes (fold render_added_table xs st) = (has_changes st \<or> xs \<noteq> [])"
  by (induction xs arbitrary: st) (auto simp: render_added_table_def)

lemma fold_render_removed_table:
  "up_lines (fold render_removed_table xs st)
     = up_lines st @ map (\<lambda>(t, cols). drop_table_stmt t) xs"
  "down_lines (fold render_removed_table xs st)
     = down_lines st @ map (\<lambda>(t, cols). create_table_stmt t cols) xs"
  "has_changes (fold render_removed_table xs st) = (has_changes st \<or> xs \<noteq> [])"
  by (induction xs arbitrary: st) (auto simp: render_removed_table_def)

lemma fold_render_added_column:
  "up_lines (fold (render_added_column dialect t) cols st)
     = up_lines st @ map (\<lambda>(c, defn). add_column_stmt t c defn) cols"
  "down_lines (fold (render_added_column dialect t) cols st)
     = down_lines st @ map (\<lambda>(c, defn). drop_column_stmt dialect t c) cols"
  "has_changes (fold (render_added_column dialect t) cols st) = has_changes st"
  by (induction cols arbitrary: st) (auto simp: render_added_column_def)

lemma fold_render_removed_column:
  "up_lines (fold (render_removed_column dialect t) cols st)
     = up_lines st @ map (\<lambda>(c, defn). drop_column_stmt dialect t c) cols"
  "down_lines (fold (render_removed_column dialect t) cols st)
     = down_lines st @ map (\<lambda>(c, defn). add_column_stmt t c defn) cols"
  "has_changes (fold (render_removed_column dialect t) cols st) = has_changes st"
  by (induction cols arbitrary: st) (auto simp: render_removed_column_def)

lemma fold_render_added_columns:
  "up_lines (fold (render_added_columns dialect) xs st)
     = up_lines st
       @ concat (map (\<lambda>(t, cols). map (\<lambda>(c, defn). add_column_stmt t c defn) cols) xs)"
  "down_lines (fold (render_added_columns dialect) xs st)
     = down_lines st
       @ concat (map (\<lambda>(t, cols). map (\<lambda>(c, defn). drop_column_stmt dialect t c) cols) xs)"
  "has_changes (fold (render_added_columns dialect) xs st) = (has_changes st \<or> xs \<noteq> [])"
  by (induction xs arbitrary: st)
     (auto simp: render_added_columns_def fold_render_added_column)

lemma fold_render_removed_columns:
  "up_lines (fold (render_removed_columns dialect) xs st)
     = up_lines st
       @ concat (map (\<lambda>(t, cols). map (\<lambda>(c, defn). drop_column_stmt dialect t c) cols) xs)"
  "down_lines (fold (render_removed_columns dialect) xs st)
     = down_lines st
       @ concat (map (\<lambda>(t, cols). map (\<lambda>(c, defn). add_column_stmt t c defn) cols) xs)"
  "has_changes (fold (render_removed_columns dialect) xs st) = (has_changes st \<or> xs \<noteq> [])"
  by (induction xs arbitrary: st)
     (auto simp: render_removed_columns_def fold_render_removed_column)

lemmas fold_render =
  fold_render_added_table fold_render_removed_table
  fold_render_added_columns fold_render_removed_columns

lemma up_lines_render_lines:
  "up_lines (render_lines changes dialect) =
     ''-- Up''
     # map (\<lambda>(t, cols). create_table_stmt t cols) (added_tables changes)
     @ map (\<lambda>(t, cols). drop_table_stmt t) (removed_tables changes)
     @ concat (map (\<lambda>(t, cols). map (\<lambda>(c, defn). add_column_stmt t c defn) cols)
                (added_columns changes))
     @ concat (map (\<lambda>(t, cols). map (\<lambda>(c, defn). drop_column_stmt dialect t c) cols)
                (removed_columns changes))"
  by (simp add: render_lines_def fold_render)

lemma down_lines_render_lines:
  "down_lines (render_lines changes dialect) =
     ''-- Down''
     # map (\<lambda>(t, cols). drop_table_stmt t) (added_tables changes)
     @ map (\<lambda>(t, cols). create_table_stmt t cols) (removed_tables changes)
     @ concat (map (\<lambda>(t, cols). map (\<lambda>(c, defn). drop_column_stmt dialect t c) cols)
                (added_columns changes))
     @ concat (map (\<lambda>(t, cols). map (\<lambda>(c, defn). add_column_stmt t c defn) cols)
                (removed_columns changes))"
  by (simp add: render_lines_def fold_render)

lemma has_changes_render_lines:
  "has_changes (render_lines changes dialect) \<longleftrightarrow>
     \<not> (added_tables changes = [] \<and> removed_tables changes = [] \<and>
        added_columns changes = [] \<and> removed_columns changes = [])"
  by (auto simp: render_lines_def fold_render)

subsection \<open>The rendered migration\<close>

lemma join_Cons: "join sep (x # xs) = x @ (if xs = [] then [] else sep @ join sep xs)"
  by (cases xs) simp_all

text \<open>
  C7. For a change set with a change, the migration is the Up lines joined by newlines,
  an empty line, the Down lines joined by newlines and a final newline; the lines are
  the header followed by the statements of the added tables, the removed tables, the
  added columns and the removed columns, in this order; a \<open>CREATE TABLE\<close> statement
  joins its columns with a comma, a newline and four spaces between \<open>(\<close>, newline,
  four spaces and newline, \<open>);\<close>.
\<close>

theorem generate_migration_structure:
  assumes "\<not> (added_tables changes = [] \<and> removed_tables changes = [] \<and>
              added_columns changes = [] \<and> removed_columns changes = [])"
  shows "generate_migration changes dialect =
     join nl
       (''-- Up''
        # map (\<lambda>(t, cols). create_table_stmt t cols) (added_tables changes)
        @ map (\<lambda>(t, cols). drop_table_stmt t) (removed_tables changes)
        @ concat (map (\<lambda>(t, cols). map (\<lambda>(c, defn). add_column_stmt t c defn) cols)
                   (added_columns changes))
        @ concat (map (\<lambda>(t, cols). map (\<lambda>(c, defn). drop_column_stmt dialect t c) cols)
                   (removed_columns changes)))
     @ nl @ nl @
     join nl
       (''-- Down''
        # map (\<lambda>(t, cols). drop_table_stmt t) (added_tables changes)
        @ map (\<lambda>(t, cols). create_table_stmt t cols) (removed_tables changes)
        @ concat (map (\<lambda>(t, cols). map (\<lambda>(c, defn). drop_column_stmt dialect t c) cols)
                   (added_columns changes))
        @ concat (map (\<lambda>(t, cols). map (\<lambda>(c, defn). add_column_stmt t c defn) cols)
                   (removed_columns changes)))
     @ nl
   \<and> (\<forall>t cols. create_table_stmt t cols =
         ''CREATE TABLE '' @ t @ '' ('' @ nl @ ''    ''
         @ join ('','' @ nl @ ''    '') (map (\<lambda>(name, defn). name @ '' '' @ defn) cols)
         @ nl @ '');'')"
proof -
  have "has_changes (render_lines changes dialect)"
    using assms by (simp add: has_changes_render_lines)
  then show ?thesis
    by (simp add: generate_migration_def Let_def up_lines_render_lines
        down_lines_render_lines create_table_stmt_def cols_text_def)
qed

lemma render_example:
  "generate_migration (diff_schemas old_example new_example) ''postgresql'' =
   ''-- Up'' @ nl @
   ''CREATE TABLE fresh ('' @ nl @ ''    p TEXT,'' @ nl @ ''    q TEXT'' @ nl @ '');'' @ nl @
   ''DROP TABLE IF EXISTS gone;'' @ nl @
   ''ALTER TABLE b ADD COLUMN m TEXT;'' @ nl @
   ''ALTER TABLE a ADD COLUMN n TEXT;'' @ nl @
   ''ALTER TABLE b DROP COLUMN y;'' @ nl @
   ''ALTER TABLE a DROP COLUMN x;'' @ nl @ nl @
   ''-- Down'' @ nl @
   ''DROP TABLE IF EXISTS fresh;'' @ nl @
   ''CREATE TABLE gone ('' @ nl @ ''    p TEXT,'' @ nl @ ''    q TEXT'' @ nl @ '');'' @ nl @
   ''ALTER TABLE b DROP COLUMN m;'' @ nl @
   ''ALTER TABLE a DROP COLUMN n;'' @ nl @
   ''ALTER TABLE b ADD COLUMN y INT;'' @ nl @
   ''ALTER TABLE a ADD COLUMN x INT;'' @ nl"
  by (simp add: diff_example generate_migration_def render_lines_def Let_def
      render_added_table_def render_removed_table_def render_added_columns_def
      render_removed_columns_def render_added_column_def render_removed_column_def
      create_table_stmt_def drop_table_stmt_def add_column_stmt_def drop_column_stmt_def
      cols_text_def)


theorem generate_migration_structure_witness:
  "\<not> (added_tables (diff_schemas old_example new_example) = [] \<and>
      removed_tables (diff_schemas old_example new_example) = [] \<and>
      added_columns (diff_schemas old_example new_example) = [] \<and>
      removed_columns (diff_schemas old_example new_example) = [])
   \<and> generate_migration (diff_schemas old_example new_example) ''sqlite'' =
   ''-- Up'' @ nl @
   ''CREATE TABLE fresh ('' @ nl @ ''    p TEXT,'' @ nl @ ''    q TEXT'' @ nl @ '');'' @ nl @
   ''DROP TABLE IF EXISTS gone;'' @ nl @
   ''ALTER TABLE b ADD COLUMN m TEXT;'' @ nl @
   ''ALTER TABLE a ADD COLUMN n TEXT;'' @ nl @
   ''-- SQLite: ALTER TABLE b DROP COLUMN y; (requires SQLite 3.35+)'' @ nl @
   ''-- SQLite: ALTER TABLE a DROP COLUMN x; (requires SQLite 3.35+)'' @ nl @ nl @
   ''-- Down'' @ nl @
   ''DROP TABLE IF EXISTS fresh;'' @ nl @
   ''CREATE TABLE gone ('' @ nl @ ''    p TEXT,'' @ nl @ ''    q TEXT'' @ nl @ '');'' @ nl @
   ''-- SQLite: ALTER TABLE b DROP COLUMN m; (requires SQLite 3.35+)'' @ nl @
   ''-- SQLite: ALTER TABLE a DROP COLUMN n; (requires SQLite 3.35+)'' @ nl @
   ''ALTER TABLE b ADD COLUMN y INT;'' @ nl @
   ''ALTER TABLE a ADD COLUMN x INT;'' @ nl"
proof -
  have ne: "\<not> (added_tables (diff_schemas old_example new_example) = [] \<and>
      removed_tables (diff_schemas old_example new_example) = [] \<and>
      added_columns (diff_schemas old_example new_example) = [] \<and>
      removed_columns (diff_schemas old_example new_example) = [])"
    by (simp add: diff_example)
  show ?thesis
    using ne generate_migration_structure [OF ne, of "''sqlite''"]
    by (simp add: diff_example drop_table_stmt_def add_column_stmt_def drop_column_stmt_def)
qed

lemma join_terminated:
  "xs \<noteq> [] \<Longrightarrow> join sep xs @ sep = concat (map (\<lambda>x. x @ sep) xs)"
  by (induction sep xs rule: join.induct) simp_all

lemma join_contains_line:
  assumes "0 < i" and "i < length xs"
  shows "\<exists>a b. join sep xs @ sep = a @ sep @ xs ! i @ sep @ b"
proof -
  have xs: "xs = take i xs @ xs ! i # drop (Suc i) xs"
    using assms(2) by (rule id_take_nth_drop)
  have before: "take i xs \<noteq> []"
    using assms by auto
  have "xs \<noteq> []"
    using assms(2) by auto
  then have "join sep xs @ sep = concat (map (\<lambda>x. x @ sep) xs)"
    by (rule join_terminated)
  also have "\<dots> = concat (map (\<lambda>x. x @ sep) (take i xs))
                 @ (xs ! i @ sep) @ concat (map (\<lambda>x. x @ sep) (drop (Suc i) xs))"
    by (subst xs) simp
  also have "concat (map (\<lambda>x. x @ sep) (take i xs)) = join sep (take i xs) @ sep"
    using before by (simp add: join_terminated)
  finally have "join sep xs @ sep
      = join sep (take i xs) @ sep @ xs ! i @ sep @ concat (map (\<lambda>x. x @ sep) (drop (Suc i) xs))"
    by simp
  then show ?thesis by blast
qed

lemma migration_contains_lines:
  assumes "0 < i" and "i < length up" and "i < length down"
  shows "\<exists>a b c. join nl up @ nl @ nl @ join nl down @ nl
           = a @ nl @ up ! i @ nl @ b @ nl @ down ! i @ nl @ c"
proof -
  from join_contains_line [OF assms(1,2), of nl] obtain a b1 where
    u: "join nl up @ nl = a @ nl @ up ! i @ nl @ b1"
    by blast
  from join_contains_line [OF assms(1,3), of nl] obtain a2 c where
    d: "join nl down @ nl = a2 @ nl @ down ! i @ nl @ c"
    by blast
  have "join nl up @ nl @ nl @ join nl down @ nl
          = (join nl up @ nl) @ nl @ (join nl down @ nl)"
    by simp
  also have "\<dots> = a @ nl @ up ! i @ nl @ (b1 @ nl @ a2) @ nl @ down ! i @ nl @ c"
    unfolding u d by simp
  finally show ?thesis by blast
qed

lemma column_lines_paired:
  assumes "(T, cols) \<in> set (if added then added_columns changes else removed_columns changes)"
    and "(C, defn) \<in> set cols"
  shows "\<exists>i. 0 < i \<and> i < length (up_lines (render_lines changes dialect))
           \<and> length (down_lines (render_lines changes dialect))
               = length (up_lines (render_lines changes dialect))
           \<and> (if added then up_lines (render_lines changes dialect)
                else down_lines (render_lines changes dialect)) ! i
               = ''ALTER TABLE '' @ T @ '' ADD COLUMN '' @ C @ '' '' @ defn @ '';''
           \<and> (if added then down_lines (render_lines changes dialect)
                else up_lines (render_lines changes dialect)) ! i
               = (if dialect = ''sqlite''
                  then ''-- SQLite: ALTER TABLE '' @ T @ '' DROP COLUMN '' @ C
                         @ ''; (requires SQLite 3.35+)''
                  else ''ALTER TABLE '' @ T @ '' DROP COLUMN '' @ C @ '';'')"
proof -
  let ?add = "\<lambda>t (c, defn). add_column_stmt t c defn"
  let ?drop = "\<lambda>t (c, defn :: string). drop_column_stmt dialect t c"
  define ps where "ps =
     map (\<lambda>(t, cols). (create_table_stmt t cols, drop_table_stmt t)) (added_tables changes)
     @ map (\<lambda>(t, cols). (drop_table_stmt t, create_table_stmt t cols)) (removed_tables changes)
     @ concat (map (\<lambda>(t, cols). map (\<lambda>x. (?add t x, ?drop t x)) cols) (added_columns changes))
     @ concat (map (\<lambda>(t, cols). map (\<lambda>x. (?drop t x, ?add t x)) cols)
                (removed_columns changes))"
  have up: "up_lines (render_lines changes dialect) = ''-- Up'' # map fst ps"
    by (simp add: up_lines_render_lines ps_def map_concat comp_def case_prod_unfold)
  have down: "down_lines (render_lines changes dialect) = ''-- Down'' # map snd ps"
    by (simp add: down_lines_render_lines ps_def map_concat comp_def case_prod_unfold)
  let ?p = "if added then (?add T (C, defn), ?drop T (C, defn))
            else (?drop T (C, defn), ?add T (C, defn))"
  have "?p \<in> set ps"
  proof (cases added)
    case True
    with assms have "(?add T (C, defn), ?drop T (C, defn))
        \<in> set (concat (map (\<lambda>(t, cols). map (\<lambda>x. (?add t x, ?drop t x)) cols)
                          (added_columns changes)))"
      by force
    with True show ?thesis by (simp add: ps_def)
  next
    case False
    with assms have "(?drop T (C, defn), ?add T (C, defn))
        \<in> set (concat (map (\<lambda>(t, cols). map (\<lambda>x. (?drop t x, ?add t x)) cols)
                          (removed_columns changes)))"
      by force
    with False show ?thesis by (simp add: ps_def)
  qed
  then obtain j where j: "j < length ps" "ps ! j = ?p"
    by (auto simp: in_set_conv_nth)
  have lines: "up_lines (render_lines changes dialect) ! Suc j = fst ?p"
    "down_lines (render_lines changes dialect) ! Suc j = snd ?p"
    "Suc j < length (up_lines (render_lines changes dialect))"
    "length (down_lines (render_lines changes dialect))
       = length (up_lines (render_lines changes dialect))"
    using j by (simp_all add: up down)
  show ?thesis
  proof (cases added)
    case True
    with lines show ?thesis
      by (intro exI [of _ "Suc j"]) (simp add: add_column_stmt_def drop_column_stmt_def)
  next
    case False
    with lines show ?thesis
      by (intro exI [of _ "Suc j"]) (simp add: add_column_stmt_def drop_column_stmt_def)
  qed
qed

text \<open>
  C6. For an added column \<open>C\<close> of table \<open>T\<close> with definition \<open>defn\<close> the migration that
  \<open>generate_migration\<close> returns is its Up lines and its Down lines joined by newlines,
  the Up block has the line \<open>ALTER TABLE T ADD COLUMN C defn;\<close> for every dialect, and
  the Down block has at the same position \<open>ALTER TABLE T DROP COLUMN C;\<close>, or for the
  dialect \<open>sqlite\<close> the comment
  \<open>-- SQLite: ALTER TABLE T DROP COLUMN C; (requires SQLite 3.35+)\<close>; both lines stand in
  the returned text, the Up line first. A removed column gives the same two lines with
  Up and Down exchanged.
\<close>

theorem column_statements:
  assumes "(T, cols) \<in> set (if added then added_columns changes else removed_columns changes)"
    and "(C, defn) \<in> set cols"
  shows "\<exists>up down i.
           generate_migration changes dialect = join nl up @ nl @ nl @ join nl down @ nl
         \<and> up = up_lines (render_lines changes dialect)
         \<and> down = down_lines (render_lines changes dialect)
         \<and> hd up = ''-- Up'' \<and> hd down = ''-- Down''
         \<and> 0 < i \<and> i < length up \<and> length down = length up
         \<and> (if added then up else down) ! i
             = ''ALTER TABLE '' @ T @ '' ADD COLUMN '' @ C @ '' '' @ defn @ '';''
         \<and> (if added then down else up) ! i
             = (if dialect = ''sqlite''
                then ''-- SQLite: ALTER TABLE '' @ T @ '' DROP COLUMN '' @ C
                       @ ''; (requires SQLite 3.35+)''
                else ''ALTER TABLE '' @ T @ '' DROP COLUMN '' @ C @ '';'')
         \<and> (\<exists>a b c. generate_migration changes dialect
                      = a @ nl @ up ! i @ nl @ b @ nl @ down ! i @ nl @ c)"
proof -
  let ?up = "up_lines (render_lines changes dialect)"
  let ?down = "down_lines (render_lines changes dialect)"
  from column_lines_paired [OF assms, of dialect] obtain i where
    i: "0 < i" "i < length ?up" "length ?down = length ?up"
    and add: "(if added then ?up else ?down) ! i
                = ''ALTER TABLE '' @ T @ '' ADD COLUMN '' @ C @ '' '' @ defn @ '';''"
    and drop: "(if added then ?down else ?up) ! i
                = (if dialect = ''sqlite''
                   then ''-- SQLite: ALTER TABLE '' @ T @ '' DROP COLUMN '' @ C
                          @ ''; (requires SQLite 3.35+)''
                   else ''ALTER TABLE '' @ T @ '' DROP COLUMN '' @ C @ '';'')"
    by blast
  have "\<not> (added_tables changes = [] \<and> removed_tables changes = [] \<and>
           added_columns changes = [] \<and> removed_columns changes = [])"
    using assms(1) by (cases added) auto
  then have "has_changes (render_lines changes dialect)"
    by (simp add: has_changes_render_lines)
  then have out: "generate_migration changes dialect
                     = join nl ?up @ nl @ nl @ join nl ?down @ nl"
    by (simp add: generate_migration_def Let_def)
  have heads: "hd ?up = ''-- Up''" "hd ?down = ''-- Down''"
    by (simp_all add: up_lines_render_lines down_lines_render_lines)
  have "i < length ?down"
    using i by simp
  with i have "\<exists>a b c. join nl ?up @ nl @ nl @ join nl ?down @ nl
                  = a @ nl @ ?up ! i @ nl @ b @ nl @ ?down ! i @ nl @ c"
    by (intro migration_contains_lines)
  then have inside: "\<exists>a b c. generate_migration changes dialect
                  = a @ nl @ ?up ! i @ nl @ b @ nl @ ?down ! i @ nl @ c"
    by (simp only: out)
  from out heads i add drop inside show ?thesis
    by (intro exI [of _ ?up] exI [of _ ?down] exI [of _ i] conjI refl)
qed

theorem column_statements_witness:
  "(''b'', [(''m'', ''TEXT'')]) \<in> set (added_columns (diff_schemas old_example new_example))
   \<and> (''m'', ''TEXT'') \<in> set [(''m'', ''TEXT'')]
   \<and> up_lines (render_lines (diff_schemas old_example new_example) ''sqlite'')
       = [''-- Up'',
          ''CREATE TABLE fresh ('' @ nl @ ''    p TEXT,'' @ nl @ ''    q TEXT'' @ nl @ '');'',
          ''DROP TABLE IF EXISTS gone;'',
          ''ALTER TABLE b ADD COLUMN m TEXT;'',
          ''ALTER TABLE a ADD COLUMN n TEXT;'',
          ''-- SQLite: ALTER TABLE b DROP COLUMN y; (requires SQLite 3.35+)'',
          ''-- SQLite: ALTER TABLE a DROP COLUMN x; (requires SQLite 3.35+)'']
   \<and> (\<exists>i a b c. 0 < i
         \<and> up_lines (render_lines (diff_schemas old_example new_example) ''sqlite'') ! i
             = ''ALTER TABLE b ADD COLUMN m TEXT;''
         \<and> down_lines (render_lines (diff_schemas old_example new_example) ''sqlite'') ! i
             = ''-- SQLite: ALTER TABLE b DROP COLUMN m; (requires SQLite 3.35+)''
         \<and> generate_migration (diff_schemas old_example new_example) ''sqlite''
             = join nl (up_lines (render_lines (diff_schemas old_example new_example) ''sqlite''))
               @ nl @ nl
               @ join nl (down_lines (render_lines (diff_schemas old_example new_example) ''sqlite''))
               @ nl
         \<and> generate_migration (diff_schemas old_example new_example) ''sqlite''
             = a @ nl @ ''ALTER TABLE b ADD COLUMN m TEXT;'' @ nl @ b @ nl
               @ ''-- SQLite: ALTER TABLE b DROP COLUMN m; (requires SQLite 3.35+)'' @ nl @ c)"
proof -
  let ?changes = "diff_schemas old_example new_example"
  have t: "(''b'', [(''m'', ''TEXT'')])
             \<in> set (if True then added_columns ?changes else removed_columns ?changes)"
    by (simp add: diff_example)
  have c: "(''m'', ''TEXT'') \<in> set [(''m'', ''TEXT'')]"
    by simp
  have lines: "up_lines (render_lines ?changes ''sqlite'')
       = [''-- Up'',
          ''CREATE TABLE fresh ('' @ nl @ ''    p TEXT,'' @ nl @ ''    q TEXT'' @ nl @ '');'',
          ''DROP TABLE IF EXISTS gone;'',
          ''ALTER TABLE b ADD COLUMN m TEXT;'',
          ''ALTER TABLE a ADD COLUMN n TEXT;'',
          ''-- SQLite: ALTER TABLE b DROP COLUMN y; (requires SQLite 3.35+)'',
          ''-- SQLite: ALTER TABLE a DROP COLUMN x; (requires SQLite 3.35+)'']"
    by (simp add: up_lines_render_lines diff_example create_table_stmt_def cols_text_def
        drop_table_stmt_def add_column_stmt_def drop_column_stmt_def)
  from column_statements [OF t c, of "''sqlite''"] obtain i a b c' where
    "0 < i"
    "up_lines (render_lines ?changes ''sqlite'') ! i = ''ALTER TABLE b ADD COLUMN m TEXT;''"
    "down_lines (render_lines ?changes ''sqlite'') ! i
       = ''-- SQLite: ALTER TABLE b DROP COLUMN m; (requires SQLite 3.35+)''"
    "generate_migration ?changes ''sqlite''
       = join nl (up_lines (render_lines ?changes ''sqlite'')) @ nl @ nl
         @ join nl (down_lines (render_lines ?changes ''sqlite'')) @ nl"
    "generate_migration ?changes ''sqlite''
       = a @ nl @ up_lines (render_lines ?changes ''sqlite'') ! i @ nl @ b @ nl
         @ down_lines (render_lines ?changes ''sqlite'') ! i @ nl @ c'"
    by auto
  then have "\<exists>i a b c. 0 < i
         \<and> up_lines (render_lines ?changes ''sqlite'') ! i = ''ALTER TABLE b ADD COLUMN m TEXT;''
         \<and> down_lines (render_lines ?changes ''sqlite'') ! i
             = ''-- SQLite: ALTER TABLE b DROP COLUMN m; (requires SQLite 3.35+)''
         \<and> generate_migration ?changes ''sqlite''
             = join nl (up_lines (render_lines ?changes ''sqlite'')) @ nl @ nl
               @ join nl (down_lines (render_lines ?changes ''sqlite'')) @ nl
         \<and> generate_migration ?changes ''sqlite''
             = a @ nl @ ''ALTER TABLE b ADD COLUMN m TEXT;'' @ nl @ b @ nl
               @ ''-- SQLite: ALTER TABLE b DROP COLUMN m; (requires SQLite 3.35+)'' @ nl @ c"
    by (intro exI [of _ i] exI [of _ a] exI [of _ b] exI [of _ c']) (simp only: simp_thms)
  with t c lines show ?thesis
    by (simp only: if_True simp_thms)
qed

subsection \<open>Identical schemas\<close>

lemma columns_not_in_self: "columns_not_in cols cols = []"
  by (auto simp: columns_not_in_def filter_empty_conv dict_contains_iff rev_image_eqI)

lemma added_columns_in_order_self:
  assumes "distinct (map fst s)"
  shows "added_columns_in_order s s = []"
proof -
  have "map_of s t = Some cols" if "(t, cols) \<in> set s" for t cols
    using assms that by (rule map_of_is_SomeI)
  then show ?thesis
    by (auto simp: added_columns_in_order_def columns_not_in_self table_entry_def)
qed

lemma removed_columns_in_order_self:
  assumes "distinct (map fst s)"
  shows "removed_columns_in_order s s = []"
proof -
  have "map_of s t = Some cols" if "(t, cols) \<in> set s" for t cols
    using assms that by (rule map_of_is_SomeI)
  then show ?thesis
    by (auto simp: removed_columns_in_order_def columns_not_in_self table_entry_def)
qed

lemma diff_schemas_self:
  assumes "wf_schema s"
  shows "diff_schemas s s = no_changes"
proof -
  have d: "distinct (map fst s)"
    using assms by (simp add: wf_schema_def wf_dict_def)
  have "filter (\<lambda>(t, cols). \<not> dict_contains s t) s = []"
    by (auto simp: filter_empty_conv dict_contains_iff rev_image_eqI)
  then show ?thesis
    using assms d
    by (simp add: diff_schemas_closed no_changes_def added_columns_in_order_self
        removed_columns_in_order_self)
qed

lemma migration_not_sentinel:
  "join nl (''-- Up'' # ls) @ rest \<noteq> ''-- No changes detected'' @ nl"
  by (simp add: join_Cons)

text \<open>
  C2. Diffing a schema with itself gives the empty change set, which renders as the
  line \<open>-- No changes detected\<close>; and a change set renders as that line exactly when
  its four categories are empty.
\<close>

theorem no_changes_detected:
  assumes "wf_schema s"
  shows "diff_schemas s s =
           \<lparr>added_tables = [], removed_tables = [], added_columns = [],
            removed_columns = []\<rparr>
       \<and> generate_migration (diff_schemas s s) dialect = ''-- No changes detected'' @ nl
       \<and> (\<forall>changes d.
             generate_migration changes d = ''-- No changes detected'' @ nl
             \<longleftrightarrow> added_tables changes = [] \<and> removed_tables changes = [] \<and>
                 added_columns changes = [] \<and> removed_columns changes = [])"
proof -
  have sentinel: "generate_migration changes d = ''-- No changes detected'' @ nl
             \<longleftrightarrow> added_tables changes = [] \<and> removed_tables changes = [] \<and>
                 added_columns changes = [] \<and> removed_columns changes = []"
    for changes d
  proof (cases "has_changes (render_lines changes d)")
    case True
    then have "generate_migration changes d \<noteq> ''-- No changes detected'' @ nl"
      unfolding generate_migration_def Let_def up_lines_render_lines
      using migration_not_sentinel by simp
    with True show ?thesis
      by (simp add: has_changes_render_lines)
  next
    case False
    then show ?thesis
      by (simp add: generate_migration_def has_changes_render_lines)
  qed
  have self: "diff_schemas s s = no_changes"
    using assms by (rule diff_schemas_self)
  have "generate_migration no_changes dialect = ''-- No changes detected'' @ nl"
    unfolding sentinel by (simp add: no_changes_def)
  with self sentinel show ?thesis
    by (simp add: no_changes_def)
qed

theorem no_changes_detected_witness:
  "wf_schema old_example
   \<and> diff_schemas old_example old_example =
       \<lparr>added_tables = [], removed_tables = [], added_columns = [], removed_columns = []\<rparr>
   \<and> generate_migration (diff_schemas old_example old_example) ''sqlite''
       = ''-- No changes detected'' @ nl
   \<and> generate_migration (diff_schemas old_example new_example) ''sqlite''
       \<noteq> ''-- No changes detected'' @ nl"
  using no_changes_detected [OF wf_old_example, of "''sqlite''"] wf_old_example
  by (simp add: diff_example)

subsection \<open>Repeated table names\<close>





subsection \<open>Tokens and keyword prefixes\<close>














subsection \<open>Table names\<close>




subsection \<open>Fragments of a table body\<close>

lemma split_ws_tokens:
  "\<forall>c\<in>set cur. \<not> is_space c \<Longrightarrow>
   (\<forall>w\<in>set (split_ws cur s). w \<noteq> [] \<and> (\<forall>c\<in>set w. \<not> is_space c))
   \<and> concat (split_ws cur s) = cur @ filter (\<lambda>c. \<not> is_space c) s"
proof (induction s arbitrary: cur)
  case Nil
  then show ?case by simp
next
  case (Cons c s)
  show ?case
  proof (cases "is_space c")
    case True
    have "\<forall>c\<in>set ([] :: string). \<not> is_space c" by simp
    from Cons.IH [OF this] True Cons.prems show ?thesis
      by simp
  next
    case False
    with Cons.prems have "\<forall>x\<in>set (cur @ [c]). \<not> is_space x" by simp
    from Cons.IH [OF this] False show ?thesis
      by simp
  qed
qed




















subsection \<open>Names the parser does not accept\<close>





subsection \<open>Parsed schemas are dictionaries\<close>

text \<open>What \<open>parse_schema\<close> returns is a dictionary of dictionaries: the schemas that
  \<open>main\<close> passes to \<open>diff_schemas\<close> satisfy \<open>wf_schema\<close>.\<close>

lemma list_all_dict_set:
  "list_all P d \<Longrightarrow> P (k, v) \<Longrightarrow> list_all P (dict_set d k v)"
  by (induction d) auto

lemma wf_parse_line: "wf_dict cols \<Longrightarrow> wf_dict (parse_line raw cols)"
  by (simp add: parse_line_def Let_def wf_dict_set)

lemma wf_parse_columns: "wf_dict (parse_columns body)"
proof -
  have "wf_dict acc \<Longrightarrow> wf_dict (fold parse_line frags acc)" for frags acc
    by (induction frags arbitrary: acc) (simp_all add: wf_parse_line)
  then show ?thesis
    by (simp add: parse_columns_def wf_dict_def)
qed

lemma wf_parse_schema: "wf_schema (parse_schema sql)"
proof -
  let ?store = "\<lambda>(table_name, body) tables. dict_set tables table_name (parse_columns body)"
  have "wf_schema acc \<Longrightarrow> wf_schema (fold ?store blocks acc)" for blocks acc
  proof (induction blocks arbitrary: acc)
    case Nil
    then show ?case by simp
  next
    case (Cons b blocks)
    obtain n body where b: "b = (n, body)" by (cases b)
    have "wf_schema (dict_set acc n (parse_columns body))"
      using Cons.prems wf_parse_columns [of body]
      by (simp add: wf_schema_def wf_dict_set list_all_dict_set)
    then show ?case
      by (simp add: b Cons.IH)
  qed
  then show ?thesis
    by (simp add: parse_schema_def wf_schema_def wf_dict_def)
qed

end
